theory Spec2Isabelle
  imports Main "HOL-Library.Word"
begin

section \<open>Data model of the transaction manager (tm.cpp)\<close>

text \<open>
  Addresses are natural numbers and the process memory is one map from addresses to
  bytes: shared segments and the client's private buffers live in the same address
  space, as in the C++ program. A \<open>struct segment*\<close> is the address of the segment
  object; the pointer \<open>&seg->lock\<close> identifies the same object, so both pointer kinds
  are modelled by \<open>seg_ptr\<close>. The live segment objects are kept in an explicit store.
\<close>

type_synonym addr = nat
type_synonym byte = "8 word"
type_synonym seg_ptr = nat

text \<open>\<open>std::shared_mutex\<close>: one exclusive owner or a number of shared owners.\<close>

record shared_mutex =
  writer :: bool
  readers :: nat

record segment =
  lock :: shared_mutex
  seg_mem :: addr
  seg_size :: nat
  freed :: bool

record region =
  start :: addr
  segments :: "seg_ptr list"
  reg_size :: nat
  align :: nat

text \<open>An undo record; \<open>old_data\<close> is the content of the buffer obtained from \<open>malloc\<close>.\<close>

record log =
  log_size :: nat
  location :: addr
  old_data :: "byte list"

text \<open>
  The transaction's \<open>region\<close> pointer is not a field of the model: the state below
  holds the one region every transaction is bound to.
\<close>

record transaction =
  logs :: "log list"
  to_free :: "seg_ptr list"
  to_free_locks :: "seg_ptr list"
  new_segments :: "seg_ptr list"
  new_seg_locks :: "seg_ptr list"
  is_ro :: bool
  locks :: "seg_ptr list"
  read_locks :: "seg_ptr list"

text \<open>
  The calls whose order matters are recorded, in program order, in the \<open>calls\<close> field of
  the state: every call of \<open>check_lock\<close>, \<open>try_lock\<close>, \<open>try_lock_shared\<close> and
  \<open>rollback\<close>, and every line printed on the standard output.
\<close>

datatype event =
  Check_lock seg_ptr
| Try_lock seg_ptr
| Try_lock_shared seg_ptr
| Rollback
| Printf string

record state =
  heap :: "addr \<Rightarrow> byte"
  segs :: "seg_ptr \<Rightarrow> segment option"
  reg :: region
  calls :: "event list"

text \<open>
  Modelled from the spec: the enumeration \<open>Alloc\<close> is declared in the header
  \<open>tm.hpp\<close>; the interface of \<open>alloc\<close> has the three results success, nomem and
  abort, which \<open>tm.cpp\<close> writes \<open>Alloc::success\<close>, \<open>Alloc::nomem\<close> and \<open>Alloc::abort\<close>.
\<close>

datatype Alloc = Alloc_success | Alloc_nomem | Alloc_abort

section \<open>Memory primitives\<close>

definition memcpy :: "addr \<Rightarrow> addr \<Rightarrow> nat \<Rightarrow> (addr \<Rightarrow> byte) \<Rightarrow> (addr \<Rightarrow> byte)" where
  "memcpy dst src n h = (\<lambda>x. if dst \<le> x \<and> x < dst + n then h (src + (x - dst)) else h x)"

definition memset :: "addr \<Rightarrow> byte \<Rightarrow> nat \<Rightarrow> (addr \<Rightarrow> byte) \<Rightarrow> (addr \<Rightarrow> byte)" where
  "memset dst b n h = (\<lambda>x. if dst \<le> x \<and> x < dst + n then b else h x)"

text \<open>\<open>memcpy\<close> from shared memory into a fresh \<open>malloc\<close> buffer, and back from it.\<close>

definition save_bytes :: "addr \<Rightarrow> nat \<Rightarrow> (addr \<Rightarrow> byte) \<Rightarrow> byte list" where
  "save_bytes src n h = map (\<lambda>i. h (src + i)) [0..<n]"

definition restore_bytes :: "addr \<Rightarrow> byte list \<Rightarrow> nat \<Rightarrow> (addr \<Rightarrow> byte) \<Rightarrow> (addr \<Rightarrow> byte)" where
  "restore_bytes dst bs n h =
     (\<lambda>x. if dst \<le> x \<and> x < dst + min n (length bs) then bs ! (x - dst) else h x)"

section \<open>Locks\<close>

text \<open>
  The try-lock calls never block. A \<open>try_lock\<close> on a mutex that is owned, also by
  the caller itself, fails and leaves the mutex as it is.
\<close>

definition try_lock :: "shared_mutex \<Rightarrow> bool \<times> shared_mutex" where
  "try_lock l = (if \<not> writer l \<and> readers l = 0 then (True, l\<lparr>writer := True\<rparr>) else (False, l))"

definition try_lock_shared :: "shared_mutex \<Rightarrow> bool \<times> shared_mutex" where
  "try_lock_shared l = (if \<not> writer l then (True, l\<lparr>readers := Suc (readers l)\<rparr>) else (False, l))"

text \<open>\<open>lock()\<close> is only ever called on the mutex of a segment that was just created.\<close>

definition lock_excl :: "shared_mutex \<Rightarrow> shared_mutex" where
  "lock_excl l = l\<lparr>writer := True\<rparr>"

definition unlock :: "shared_mutex \<Rightarrow> shared_mutex" where
  "unlock l = l\<lparr>writer := False\<rparr>"

definition unlock_shared :: "shared_mutex \<Rightarrow> shared_mutex" where
  "unlock_shared l = l\<lparr>readers := readers l - 1\<rparr>"

text \<open>
  A lock operation through a pointer. A pointer to a segment that was deleted is
  dangling; the model leaves the state unchanged there.
\<close>

definition upd_lock :: "(shared_mutex \<Rightarrow> shared_mutex) \<Rightarrow> state \<Rightarrow> seg_ptr \<Rightarrow> state" where
  "upd_lock f s p =
     (case segs s p of
        None \<Rightarrow> s
      | Some sg \<Rightarrow> s\<lparr>segs := (segs s)(p \<mapsto> sg\<lparr>lock := f (lock sg)\<rparr>)\<rparr>)"

definition set_freed :: "bool \<Rightarrow> state \<Rightarrow> seg_ptr \<Rightarrow> state" where
  "set_freed b s p =
     (case segs s p of
        None \<Rightarrow> s
      | Some sg \<Rightarrow> s\<lparr>segs := (segs s)(p \<mapsto> sg\<lparr>freed := b\<rparr>)\<rparr>)"

definition record_call :: "event \<Rightarrow> state \<Rightarrow> state" where
  "record_call e s = s\<lparr>calls := calls s @ [e]\<rparr>"

section \<open>Helper functions\<close>

text \<open>
  The loops of \<open>tm_read\<close>, \<open>tm_write\<close> and \<open>tm_free\<close> over \<open>region->segments\<close> return
  inside the first iteration whose segment satisfies the test; \<open>find_seg\<close> is that scan.
  A pointer of the vector whose segment object is no longer alive is passed over.
\<close>

fun find_seg :: "(segment \<Rightarrow> bool) \<Rightarrow> (seg_ptr \<Rightarrow> segment option) \<Rightarrow> seg_ptr list
    \<Rightarrow> (seg_ptr \<times> segment) option" where
  "find_seg P st [] = None"
| "find_seg P st (p # ps) =
     (case st p of
        None \<Rightarrow> find_seg P st ps
      | Some sg \<Rightarrow> if P sg then Some (p, sg) else find_seg P st ps)"

definition in_segment :: "addr \<Rightarrow> segment \<Rightarrow> bool" where
  "in_segment a sg \<longleftrightarrow> seg_mem sg \<le> a \<and> a < seg_mem sg + seg_size sg"

definition at_base :: "addr \<Rightarrow> segment \<Rightarrow> bool" where
  "at_base a sg \<longleftrightarrow> a = seg_mem sg"

text \<open>
  \<open>free_segments\<close>: for each segment to free, the inner loop erases the matching
  pointer from \<open>region->segments\<close> and deletes the segment object. The pointers of a
  region are pairwise distinct, so the scan matches at most once.
\<close>

definition free_segment :: "state \<Rightarrow> seg_ptr \<Rightarrow> state" where
  "free_segment s p =
     (if p \<in> set (segments (reg s))
      then s\<lparr>reg := (reg s)\<lparr>segments := remove1 p (segments (reg s))\<rparr>,
             segs := (segs s)(p := None)\<rparr>
      else s)"

definition free_segments :: "state \<Rightarrow> seg_ptr list \<Rightarrow> state" where
  "free_segments s ps = foldl free_segment s ps"

definition restore :: "state \<Rightarrow> log \<Rightarrow> state" where
  "restore s c = s\<lparr>heap := restore_bytes (location c) (old_data c) (log_size c) (heap s)\<rparr>"

text \<open>\<open>rollback\<close> ends with \<open>delete trans\<close>: the callers return no transaction.\<close>

definition rollback :: "state \<Rightarrow> transaction \<Rightarrow> state" where
  "rollback s t =
     (let s0 = record_call Rollback s;
          s1 = (if \<not> is_ro t then
                  (let a = foldl restore s0 (logs t);
                       b = foldl (set_freed False) a (to_free t);
                       c = free_segments b (new_segments t);
                       d = foldl (upd_lock unlock) c (locks t)
                   in foldl (upd_lock unlock) d (to_free_locks t))
                else s0)
      in foldl (upd_lock unlock_shared) s1 (read_locks t))"

definition check_lock :: "transaction \<Rightarrow> seg_ptr \<Rightarrow> bool" where
  "check_lock t l \<longleftrightarrow>
     l \<in> set (locks t) \<or> l \<in> set (read_locks t) \<or> l \<in> set (new_seg_locks t)
       \<or> l \<in> set (to_free_locks t)"

section \<open>The interface\<close>

text \<open>
  Results of the allocator are parameters: \<open>None\<close> (or \<open>False\<close>) is a failed
  allocation, \<open>Some p\<close> the pointer obtained.
\<close>

definition tm_create :: "(addr \<Rightarrow> byte) \<Rightarrow> bool \<Rightarrow> seg_ptr option \<Rightarrow> addr option \<Rightarrow> nat \<Rightarrow> nat
    \<Rightarrow> state option" where
  "tm_create h new_region new_seg memalign sz al =
     (if \<not> new_region then None
      else case new_seg of
        None \<Rightarrow> None
      | Some p \<Rightarrow>
         (case memalign of
            None \<Rightarrow> None
          | Some m \<Rightarrow>
             Some \<lparr>heap = memset m 0 sz h,
                   segs = Map.empty(p \<mapsto> \<lparr>lock = \<lparr>writer = False, readers = 0\<rparr>,
                                          seg_mem = m, seg_size = sz, freed = False\<rparr>),
                   reg = \<lparr>start = m, segments = [p], reg_size = sz, align = al\<rparr>,
                   calls = []\<rparr>))"

definition tm_begin :: "bool \<Rightarrow> bool \<Rightarrow> transaction option" where
  "tm_begin new_tx ro =
     (if \<not> new_tx then None
      else Some \<lparr>logs = [], to_free = [], to_free_locks = [], new_segments = [],
                 new_seg_locks = [], is_ro = ro, locks = [], read_locks = []\<rparr>)"

definition tm_end :: "state \<Rightarrow> transaction \<Rightarrow> bool \<times> state \<times> transaction option" where
  "tm_end s t =
     (let s1 = foldl (upd_lock unlock_shared) s (read_locks t);
          s2 = (if \<not> is_ro t then
                  (let a = free_segments s1 (to_free t);
                       b = foldl (upd_lock unlock) a (locks t)
                   in foldl (upd_lock unlock) b (new_seg_locks t))
                else s1)
      in (True, s2, None))"

definition tm_read :: "state \<Rightarrow> transaction \<Rightarrow> addr \<Rightarrow> nat \<Rightarrow> addr
    \<Rightarrow> bool \<times> state \<times> transaction option" where
  "tm_read s t source n target =
     (case find_seg (in_segment source) (segs s) (segments (reg s)) of
        None \<Rightarrow> (False, rollback s t, None)
      | Some (p, sg) \<Rightarrow>
         (let s1 = record_call (Check_lock p) s;
              held = (if \<not> check_lock t p then
                        (let s2 = record_call (Try_lock_shared p) s1 in
                         if \<not> fst (try_lock_shared (lock sg)) then Inl s2
                         else Inr (upd_lock (\<lambda>l. snd (try_lock_shared l)) s2 p,
                                   t\<lparr>read_locks := read_locks t @ [p]\<rparr>))
                      else Inr (s1, t))
          in case held of
               Inl s2 \<Rightarrow> (False, rollback s2 t, None)
             | Inr (s3, t3) \<Rightarrow>
                 if freed sg then (False, rollback s3 t3, None)
                 else (True, s3\<lparr>heap := memcpy target source n (heap s3)\<rparr>, Some t3)))"

definition tm_write :: "state \<Rightarrow> transaction \<Rightarrow> addr \<Rightarrow> nat \<Rightarrow> addr \<Rightarrow> bool \<Rightarrow> bool
    \<Rightarrow> bool \<times> state \<times> transaction option" where
  "tm_write s t source n target new_log malloc_ok =
     (case find_seg (in_segment target) (segs s) (segments (reg s)) of
        None \<Rightarrow> (False, rollback (record_call (Printf (''Not found for write'' @ [CHR 0x0A])) s) t, None)
      | Some (p, sg) \<Rightarrow>
         (let s1 = record_call (Check_lock p) s;
              held = (if \<not> check_lock t p then
                        (let s2 = record_call (Try_lock p) s1 in
                         if \<not> fst (try_lock (lock sg)) then Inl s2
                         else Inr (upd_lock (\<lambda>l. snd (try_lock l)) s2 p,
                                   t\<lparr>locks := locks t @ [p]\<rparr>))
                      else Inr (s1, t))
          in case held of
               Inl s2 \<Rightarrow> (False, rollback s2 t, None)
             | Inr (s3, t3) \<Rightarrow>
                 if freed sg then (False, rollback s3 t3, None)
                 else if \<not> new_log then (False, rollback s3 t3, None)
                 else if \<not> malloc_ok then (False, rollback s3 t3, None)
                 else
                   (let change = \<lparr>log_size = n, location = target,
                                   old_data = save_bytes target n (heap s3)\<rparr>
                    in (True, s3\<lparr>heap := memcpy target source n (heap s3)\<rparr>,
                        Some (t3\<lparr>logs := change # logs t3\<rparr>)))))"

text \<open>
  \<open>tm_alloc\<close> also returns the value stored through the \<open>target\<close> pointer, when it
  stores one.
\<close>

definition tm_alloc :: "state \<Rightarrow> transaction \<Rightarrow> nat \<Rightarrow> seg_ptr option \<Rightarrow> addr option
    \<Rightarrow> Alloc \<times> state \<times> transaction option \<times> addr option" where
  "tm_alloc s t n new_seg memalign =
     (case new_seg of
        None \<Rightarrow> (Alloc_nomem, s, Some t, None)
      | Some p \<Rightarrow>
         (let sg0 = \<lparr>lock = \<lparr>writer = False, readers = 0\<rparr>, seg_mem = 0, seg_size = 0,
                     freed = False\<rparr>;
              s1 = s\<lparr>segs := (segs s)(p \<mapsto> sg0)\<rparr>
          in case memalign of
               None \<Rightarrow> (Alloc_nomem, s1\<lparr>segs := (segs s1)(p := None)\<rparr>, Some t, None)
             | Some m \<Rightarrow>
                 (let sg = sg0\<lparr>seg_mem := m, seg_size := n, freed := False,
                               lock := lock_excl (lock sg0)\<rparr>;
                      s2 = s1\<lparr>heap := memset m 0 n (heap s1),
                              segs := (segs s1)(p \<mapsto> sg),
                              reg := (reg s1)\<lparr>segments := segments (reg s1) @ [p]\<rparr>\<rparr>;
                      t2 = t\<lparr>new_seg_locks := new_seg_locks t @ [p],
                             new_segments := new_segments t @ [p]\<rparr>
                  in (Alloc_success, s2, Some t2, Some m))))"

definition tm_free :: "state \<Rightarrow> transaction \<Rightarrow> addr \<Rightarrow> bool \<times> state \<times> transaction option" where
  "tm_free s t target =
     (case find_seg (at_base target) (segs s) (segments (reg s)) of
        None \<Rightarrow> (False, rollback s t, None)
      | Some (p, sg) \<Rightarrow>
         (let s1 = record_call (Try_lock p) s;
              s2 = upd_lock (\<lambda>l. snd (try_lock l)) s1 p;
              mark = (\<lambda>s'. (True, set_freed True s' p,
                            Some (t\<lparr>to_free_locks := to_free_locks t @ [p]\<rparr>)))
          in if \<not> fst (try_lock (lock sg)) then
               (let s3 = record_call (Check_lock p) s2 in
                if \<not> check_lock t p then (False, rollback s3 t, None) else mark s3)
             else mark s2))"

section \<open>A client's sequence of calls on one transaction\<close>

datatype op =
  Read addr nat addr
| Write addr nat addr bool bool
| Alloc_op nat "seg_ptr option" "addr option"
| Free addr

text \<open>
  Each call returns whether the transaction can continue; for \<open>tm_alloc\<close> that is
  every result but \<open>Alloc::abort\<close>.
\<close>

fun step :: "state \<Rightarrow> transaction \<Rightarrow> op \<Rightarrow> bool \<times> state \<times> transaction option" where
  "step s t (Read source n target) = tm_read s t source n target"
| "step s t (Write source n target new_log malloc_ok) =
     tm_write s t source n target new_log malloc_ok"
| "step s t (Alloc_op n new_seg memalign) =
     (case tm_alloc s t n new_seg memalign of
        (r, s', t', out) \<Rightarrow> (r \<noteq> Alloc_abort, s', t'))"
| "step s t (Free target) = tm_free s t target"

fun run :: "state \<Rightarrow> transaction \<Rightarrow> op list \<Rightarrow> (state \<times> transaction) option" where
  "run s t [] = Some (s, t)"
| "run s t (x # xs) =
     (case step s t x of
        (True, s', Some t') \<Rightarrow> run s' t' xs
      | _ \<Rightarrow> None)"

text \<open>
  The calls of two transactions on the same region, in the order in which they are
  made: each call runs to its end before the next one starts, and \<open>True\<close> marks a
  call of the first transaction.
\<close>

fun run2 :: "state \<Rightarrow> transaction \<Rightarrow> transaction \<Rightarrow> (bool \<times> op) list
    \<Rightarrow> (state \<times> transaction \<times> transaction) option" where
  "run2 s t u [] = Some (s, t, u)"
| "run2 s t u ((first, x) # xs) =
     (if first then
        (case step s t x of
           (True, s', Some t') \<Rightarrow> run2 s' t' u xs
         | _ \<Rightarrow> None)
      else
        (case step s u x of
           (True, s', Some u') \<Rightarrow> run2 s' t u' xs
         | _ \<Rightarrow> None))"

text \<open>Whether a call is a write whose target range covers the address.\<close>

fun writes_to :: "addr \<Rightarrow> op \<Rightarrow> bool" where
  "writes_to a (Write source n target new_log malloc_ok) \<longleftrightarrow> target \<le> a \<and> a < target + n"
| "writes_to a _ \<longleftrightarrow> False"

section \<open>Notions used to state the properties\<close>

text \<open>A buffer is private when it overlaps no segment of the region.\<close>

definition private_buffer :: "state \<Rightarrow> addr \<Rightarrow> nat \<Rightarrow> bool" where
  "private_buffer s a n \<longleftrightarrow>
     list_all (\<lambda>p. case segs s p of
                      None \<Rightarrow> True
                    | Some sg \<Rightarrow> a + n \<le> seg_mem sg \<or> seg_mem sg + seg_size sg \<le> a)
       (segments (reg s))"

text \<open>The number of shared owners of a live segment's lock.\<close>

definition readers_of :: "state \<Rightarrow> seg_ptr \<Rightarrow> nat option" where
  "readers_of s p = (case segs s p of None \<Rightarrow> None | Some sg \<Rightarrow> Some (readers (lock sg)))"

text \<open>The addresses an undo record writes when it is replayed.\<close>

definition covers :: "log \<Rightarrow> addr \<Rightarrow> bool" where
  "covers c a \<longleftrightarrow> location c \<le> a \<and> a < location c + min (log_size c) (length (old_data c))"

fun is_try :: "event \<Rightarrow> bool" where
  "is_try (Try_lock p) = True"
| "is_try (Try_lock_shared p) = True"
| "is_try e = False"

text \<open>The lines printed on the standard output so far.\<close>

fun printed :: "event \<Rightarrow> string list" where
  "printed (Printf line) = [line]"
| "printed e = []"

definition stdout :: "state \<Rightarrow> string list" where
  "stdout s = concat (map printed (calls s))"

text \<open>The byte at an address, and the mutex of a live segment.\<close>

definition byte_at :: "addr \<Rightarrow> state \<Rightarrow> byte" where
  "byte_at a s = heap s a"

definition lock_of :: "seg_ptr \<Rightarrow> state \<Rightarrow> shared_mutex option" where
  "lock_of p s = map_option lock (segs s p)"

text \<open>The segment that a read or a write of an address would select.\<close>

definition locate :: "addr \<Rightarrow> state \<Rightarrow> seg_ptr option" where
  "locate a s = map_option fst (find_seg (in_segment a) (segs s) (segments (reg s)))"

text \<open>The state after \<open>tm_end\<close> of a transaction whose calls all succeeded.\<close>

definition commit :: "(state \<times> transaction) option \<Rightarrow> state option" where
  "commit r = (case r of None \<Rightarrow> None | Some (s, t) \<Rightarrow> Some (fst (snd (tm_end s t))))"

section \<open>A concrete scenario\<close>

text \<open>
  A region with its first segment (object 0, 16 bytes at address 64) and a second
  segment (object 1, 16 bytes at address 128). The client's private memory lies below
  address 64: a buffer of eight bytes 1 at address 0, a buffer of eight bytes 2 at
  address 8, and a zeroed buffer at address 32.
\<close>

definition scenario_state :: state where
  "scenario_state =
     \<lparr>heap = (\<lambda>a. if a < 8 then 1 else if a < 16 then 2 else 0),
      segs = [0 \<mapsto> \<lparr>lock = \<lparr>writer = False, readers = 0\<rparr>, seg_mem = 64, seg_size = 16,
                     freed = False\<rparr>,
              1 \<mapsto> \<lparr>lock = \<lparr>writer = False, readers = 0\<rparr>, seg_mem = 128, seg_size = 16,
                     freed = False\<rparr>],
      reg = \<lparr>start = 64, segments = [0, 1], reg_size = 16, align = 8\<rparr>,
      calls = []\<rparr>"

text \<open>The transaction \<open>tm_begin\<close> returns.\<close>

definition scenario_tx :: "bool \<Rightarrow> transaction" where
  "scenario_tx ro =
     \<lparr>logs = [], to_free = [], to_free_locks = [], new_segments = [], new_seg_locks = [],
      is_ro = ro, locks = [], read_locks = []\<rparr>"

text \<open>The same region with the second segment tombstoned and its lock free.\<close>

definition tombstoned_state :: state where
  "tombstoned_state = set_freed True scenario_state 1"

lemmas eval_defs =
  scenario_state_def scenario_tx_def tm_read_def tm_write_def tm_free_def tm_alloc_def
  tm_end_def tm_begin_def rollback_def check_lock_def in_segment_def at_base_def
  try_lock_def try_lock_shared_def unlock_def unlock_shared_def lock_excl_def upd_lock_def
  set_freed_def record_call_def free_segments_def free_segment_def restore_def
  restore_bytes_def save_bytes_def memcpy_def memset_def Let_def

lemmas observe_defs = stdout_def byte_at_def lock_of_def locate_def

section \<open>Frame lemmas of the helpers\<close>

lemma upd_lock_frame [simp]:
  "heap (upd_lock f s p) = heap s" "calls (upd_lock f s p) = calls s" "reg (upd_lock f s p) = reg s"
  by (simp_all add: upd_lock_def split: option.splits)

lemma fold_upd_lock_frame [simp]:
  "heap (foldl (upd_lock f) s ps) = heap s"
  "calls (foldl (upd_lock f) s ps) = calls s"
  "reg (foldl (upd_lock f) s ps) = reg s"
  by (induction ps arbitrary: s) simp_all

lemma set_freed_frame [simp]:
  "heap (set_freed b s p) = heap s" "calls (set_freed b s p) = calls s" "reg (set_freed b s p) = reg s"
  by (simp_all add: set_freed_def split: option.splits)

lemma fold_set_freed_frame [simp]:
  "heap (foldl (set_freed b) s ps) = heap s"
  "calls (foldl (set_freed b) s ps) = calls s"
  "reg (foldl (set_freed b) s ps) = reg s"
  by (induction ps arbitrary: s) simp_all

lemma free_segment_frame [simp]:
  "heap (free_segment s p) = heap s" "calls (free_segment s p) = calls s"
  by (simp_all add: free_segment_def)

lemma free_segments_frame [simp]:
  "heap (free_segments s ps) = heap s" "calls (free_segments s ps) = calls s"
  unfolding free_segments_def by (induction ps arbitrary: s) simp_all

lemma restore_frame [simp]:
  "calls (restore s c) = calls s" "segs (restore s c) = segs s" "reg (restore s c) = reg s"
  by (simp_all add: restore_def)

lemma fold_restore_frame [simp]:
  "calls (foldl restore s cs) = calls s"
  "segs (foldl restore s cs) = segs s"
  "reg (foldl restore s cs) = reg s"
  by (induction cs arbitrary: s) simp_all

lemma record_call_frame [simp]:
  "heap (record_call e s) = heap s" "segs (record_call e s) = segs s"
  "reg (record_call e s) = reg s" "calls (record_call e s) = calls s @ [e]"
  by (simp_all add: record_call_def)

text \<open>Replaying an undo log reads nothing but the memory.\<close>

lemma fold_restore_heap_cong:
  "heap s = heap s' \<Longrightarrow> heap (foldl restore s cs) = heap (foldl restore s' cs)"
  by (induction cs arbitrary: s s') (simp_all add: restore_def)

lemma rollback_heap:
  "heap (rollback s t) = (if is_ro t then heap s else heap (foldl restore s (logs t)))"
  using fold_restore_heap_cong [of "record_call Rollback s" s "logs t"]
  by (simp add: rollback_def Let_def)

lemma rollback_calls [simp]: "calls (rollback s t) = calls s @ [Rollback]"
  by (simp add: rollback_def Let_def)

lemma triple_eq: "fst r = b \<Longrightarrow> r = (b, fst (snd r), snd (snd r))"
  by (cases r) auto


section \<open>The scan for a segment\<close>

lemma find_seg_Some:
  "find_seg P st ps = Some (p, sg) \<Longrightarrow> p \<in> set ps \<and> st p = Some sg \<and> P sg"
  by (induction ps) (auto split: option.splits if_splits)

lemma find_seg_lock_upd:
  assumes "find_seg P st ps = Some (p, sg)" and "\<And>x l. P (x\<lparr>lock := l\<rparr>) = P x"
  shows "find_seg P (st(p \<mapsto> sg\<lparr>lock := l\<rparr>)) ps = Some (p, sg\<lparr>lock := l\<rparr>)"
  using assms by (induction ps) (auto split: option.splits if_splits)

lemma in_segment_lock [simp]: "in_segment a (x\<lparr>lock := l\<rparr>) = in_segment a x"
  by (simp add: in_segment_def)

section \<open>What a successful call leaves behind\<close>

lemma tm_write_success:
  assumes w: "tm_write s t source n target new_log malloc_ok = (True, s1, t1')"
  obtains p sg t1 where "t1' = Some t1"
    and "find_seg (in_segment target) (segs s) (segments (reg s)) = Some (p, sg)"
    and "\<not> freed sg" and "check_lock t1 p" and "reg s1 = reg s"
    and "segs s1 = (if check_lock t p then segs s
                    else (segs s)(p \<mapsto> sg\<lparr>lock := snd (try_lock (lock sg))\<rparr>))"
    and "logs t1 = \<lparr>log_size = n, location = target,
                     old_data = save_bytes target n (heap s)\<rparr> # logs t"
    and "is_ro t1 = is_ro t"
    and "heap s1 = memcpy target source n (heap s)"
proof -
  obtain p sg where f: "find_seg (in_segment target) (segs s) (segments (reg s)) = Some (p, sg)"
    using w by (cases "find_seg (in_segment target) (segs s) (segments (reg s))")
      (auto simp: tm_write_def)
  have live: "segs s p = Some sg" using find_seg_Some [OF f] by simp
  show thesis
  proof (cases "check_lock t p")
    case True
    moreover have "\<And>c. check_lock (t\<lparr>logs := c\<rparr>) p = check_lock t p"
      by (simp add: check_lock_def)
    ultimately show thesis using w f that [of _ p sg]
      by (auto simp: tm_write_def Let_def split: if_splits)
  next
    case False
    with w f live that [of _ p sg] show thesis
      by (auto simp: tm_write_def Let_def upd_lock_def check_lock_def split: if_splits)
  qed
qed

lemma tm_read_heap:
  assumes "tm_read s t source n target = (True, s', t')"
  shows "heap s' = memcpy target source n (heap s)"
  using assms
  by (auto simp: tm_read_def Let_def split: option.splits if_splits sum.splits prod.splits)

lemma tm_read_held:
  assumes "find_seg (in_segment source) (segs s) (segments (reg s)) = Some (p, sg)"
    and "check_lock t p" and "\<not> freed sg"
  shows "tm_read s t source n target =
           (True, (record_call (Check_lock p) s)\<lparr>heap := memcpy target source n (heap s)\<rparr>, Some t)"
  using assms by (simp add: tm_read_def Let_def)

lemma tm_read_success_tx:
  assumes "tm_read s t source n target = (True, s', Some t')"
  shows "logs t' = logs t \<and> is_ro t' = is_ro t"
  using assms
  by (auto simp: tm_read_def Let_def split: option.splits if_splits)

lemma tm_free_success_tx:
  assumes "tm_free s t target = (True, s', Some t')"
  shows "logs t' = logs t \<and> is_ro t' = is_ro t"
  using assms
  by (auto simp: tm_free_def Let_def split: option.splits if_splits)

section \<open>The undo log\<close>

lemma restore_heap_covered:
  "covers c a \<Longrightarrow> heap (restore s c) a = old_data c ! (a - location c)"
  by (simp add: restore_def restore_bytes_def covers_def)

lemma restore_heap_other:
  "\<not> covers c a \<Longrightarrow> heap (restore s c) a = heap s a"
  by (auto simp: restore_def restore_bytes_def covers_def)

lemma fold_restore_no_cover:
  "\<forall>c\<in>set cs. \<not> covers c a \<Longrightarrow> heap (foldl restore s cs) a = heap s a"
  by (induction cs arbitrary: s) (simp_all add: restore_heap_other)

text \<open>
  Replayed front to back, the last record of the log that covers an address decides
  its final value, whatever the records before it restored.
\<close>

lemma fold_restore_oldest:
  assumes "covers c a" and "\<forall>d\<in>set older. \<not> covers d a"
  shows "heap (foldl restore s (newer @ c # older)) a = old_data c ! (a - location c)"
  using assms by (simp add: fold_restore_no_cover restore_heap_covered)

lemma covers_saved:
  "covers \<lparr>log_size = n, location = target, old_data = save_bytes target n h\<rparr> a
     \<longleftrightarrow> target \<le> a \<and> a < target + n"
  by (simp add: covers_def save_bytes_def)

lemma saved_byte:
  assumes "target \<le> a" and "a < target + n"
  shows "save_bytes target n h ! (a - target) = h a"
proof -
  from assms have "a - target < n" by arith
  then show ?thesis using assms by (simp add: save_bytes_def)
qed

text \<open>Successful calls only ever put records in front of the log.\<close>

lemma step_success_tx:
  assumes "step s t x = (True, s', Some t')"
  shows "is_ro t' = is_ro t
       \<and> (\<exists>cs. logs t' = cs @ logs t \<and> (\<forall>c\<in>set cs. covers c a \<longrightarrow> writes_to a x))"
proof (cases x)
  case (Read source n target)
  with assms tm_read_success_tx [of s t source n target s' t'] show ?thesis by simp
next
  case (Write source n target new_log malloc_ok)
  with assms have w: "tm_write s t source n target new_log malloc_ok = (True, s', Some t')"
    by simp
  from w have ro: "is_ro t' = is_ro t" by (rule tm_write_success) simp
  from w have lg: "logs t' = [\<lparr>log_size = n, location = target,
                     old_data = save_bytes target n (heap s)\<rparr>] @ logs t"
    by (rule tm_write_success) simp
  show ?thesis using ro lg Write by (auto simp: covers_saved simp del: append.simps)
next
  case (Alloc_op n new_seg memalign)
  with assms show ?thesis
    by (auto simp: tm_alloc_def Let_def split: option.splits)
next
  case (Free target)
  with assms tm_free_success_tx [of s t target s' t'] show ?thesis by simp
qed

lemma run_tx:
  assumes "run s t xs = Some (s', t')"
  shows "is_ro t' = is_ro t
       \<and> (\<exists>cs. logs t' = cs @ logs t
             \<and> (\<forall>c\<in>set cs. covers c a \<longrightarrow> (\<exists>x\<in>set xs. writes_to a x)))"
  using assms
proof (induction xs arbitrary: s t)
  case Nil
  then show ?case by simp
next
  case (Cons x xs)
  from Cons.prems obtain s1 t1 where st: "step s t x = (True, s1, Some t1)"
    and rest: "run s1 t1 xs = Some (s', t')"
    by (auto split: prod.splits bool.splits option.splits)
  from step_success_tx [OF st, of a] obtain c1 where
    ro1: "is_ro t1 = is_ro t" and l1: "logs t1 = c1 @ logs t"
    and w1: "\<forall>c\<in>set c1. covers c a \<longrightarrow> writes_to a x" by blast
  from Cons.IH [OF rest] obtain c2 where
    ro2: "is_ro t' = is_ro t1" and l2: "logs t' = c2 @ logs t1"
    and w2: "\<forall>c\<in>set c2. covers c a \<longrightarrow> (\<exists>x\<in>set xs. writes_to a x)" by blast
  have "logs t' = (c2 @ c1) @ logs t" using l1 l2 by simp
  moreover have "\<forall>c\<in>set (c2 @ c1). covers c a \<longrightarrow> (\<exists>y\<in>set (x # xs). writes_to a y)"
    using w1 w2 by auto
  ultimately show ?case using ro1 ro2 by blast
qed

text \<open>An aborting call changes the memory by its rollback only.\<close>

lemma tm_read_abort_heap:
  assumes "tm_read s t source n target = (False, s', t')"
  shows "heap s' = heap (rollback s t)"
  using assms
  by (auto simp: tm_read_def Let_def rollback_heap split: option.splits if_splits
      intro!: fold_restore_heap_cong)

lemma tm_write_abort_heap:
  assumes "tm_write s t source n target new_log malloc_ok = (False, s', t')"
  shows "heap s' = heap (rollback s t)"
  using assms
  by (auto simp: tm_write_def Let_def rollback_heap split: option.splits if_splits
      intro!: fold_restore_heap_cong)

lemma tm_free_abort_heap:
  assumes "tm_free s t target = (False, s', t')"
  shows "heap s' = heap (rollback s t)"
  using assms
  by (auto simp: tm_free_def Let_def rollback_heap split: option.splits if_splits
      intro!: fold_restore_heap_cong)

lemma step_abort_heap:
  assumes "step s t x = (False, s', t')"
  shows "heap s' = heap (rollback s t)"
proof (cases x)
  case (Read source n target)
  with assms show ?thesis using tm_read_abort_heap [of s t source n target s' t'] by simp
next
  case (Write source n target new_log malloc_ok)
  with assms show ?thesis
    using tm_write_abort_heap [of s t source n target new_log malloc_ok s' t'] by simp
next
  case (Alloc_op n new_seg memalign)
  with assms show ?thesis by (simp add: tm_alloc_def Let_def split: option.splits)
next
  case (Free target)
  with assms show ?thesis using tm_free_abort_heap [of s t target s' t'] by simp
qed

section \<open>Shared locks released by a rollback\<close>




lemma readers_of_record_call [simp]: "readers_of (record_call e s) p = readers_of s p"
  by (simp add: readers_of_def)






section \<open>The standard output of an aborting call\<close>

lemma stdout_rollback [simp]: "stdout (rollback s t) = stdout s"
  by (simp add: stdout_def)

lemma stdout_record_call [simp]: "stdout (record_call e s) = stdout s @ printed e"
  by (simp add: stdout_def)

lemma stdout_upd_lock [simp]: "stdout (upd_lock f s p) = stdout s"
  by (simp add: stdout_def)





section \<open>The order of the lock calls\<close>

lemma tm_read_calls:
  assumes f: "find_seg (in_segment a) (segs s) (segments (reg s)) = Some (p, sg)"
  shows "\<exists>rest. calls (fst (snd (tm_read s t a n target))) = calls s @ Check_lock p # rest
            \<and> (check_lock t p \<longrightarrow> \<not> list_ex is_try rest)"
  using f by (simp add: tm_read_def Let_def)

lemma tm_write_calls:
  assumes f: "find_seg (in_segment a) (segs s) (segments (reg s)) = Some (p, sg)"
  shows "\<exists>rest. calls (fst (snd (tm_write s t source n a new_log malloc_ok)))
              = calls s @ Check_lock p # rest
            \<and> (check_lock t p \<longrightarrow> \<not> list_ex is_try rest)"
  using f by (simp add: tm_write_def Let_def)

lemma tm_free_calls:
  assumes f: "find_seg (at_base a) (segs s) (segments (reg s)) = Some (q, sq)"
  shows "\<exists>rest. calls (fst (snd (tm_free s t a))) = calls s @ Try_lock q # rest
            \<and> (Check_lock q \<in> set rest \<longleftrightarrow> \<not> fst (try_lock (lock sq)))"
  using f by (simp add: tm_free_def Let_def)

section \<open>Rollback of writes\<close>

text \<open>
  C1: a read-write transaction runs any calls that succeed, among them a first write
  that covers the address \<open>a\<close>, possibly followed by further writes of the same range;
  then a call aborts. Since \<open>tm_write\<close> puts each undo record in front of the log and
  \<open>rollback\<close> replays the log front to back, the byte at \<open>a\<close> has after the abort the
  value it had immediately before that first write.
\<close>

theorem rollback_restores_first_preimage:
  assumes b: "tm_begin True False = Some t0"
    and r1: "run s0 t0 before = Some (s1, t1)"
    and nw: "\<forall>x\<in>set before. \<not> writes_to a x"
    and w: "tm_write s1 t1 source n target new_log malloc_ok = (True, s2, Some t2)"
    and cov: "target \<le> a" "a < target + n"
    and r2: "run s2 t2 after = Some (s3, t3)"
    and ab: "step s3 t3 x = (False, s4, t4)"
  shows "heap s4 a = heap s1 a"
proof -
  let ?c = "\<lparr>log_size = n, location = target, old_data = save_bytes target n (heap s1)\<rparr>"
  from b have ro0: "\<not> is_ro t0" and l0: "logs t0 = []"
    by (auto simp: tm_begin_def)
  from run_tx [OF r1, of a] nw l0 ro0 have ro1: "\<not> is_ro t1"
    and old: "\<forall>d\<in>set (logs t1). \<not> covers d a" by auto
  from w have ro2: "is_ro t2 = is_ro t1" by (rule tm_write_success) simp
  from w have l2: "logs t2 = ?c # logs t1" by (rule tm_write_success) simp
  from run_tx [OF r2, of a] obtain newer where
    ro3: "is_ro t3 = is_ro t2" and l3: "logs t3 = newer @ logs t2" by blast
  have c: "covers ?c a" using cov by (simp add: covers_saved)
  have "heap s4 a = heap (rollback s3 t3) a"
    using step_abort_heap [OF ab] by simp
  also have "\<dots> = heap (foldl restore s3 (newer @ ?c # logs t1)) a"
    using ro1 ro2 ro3 l2 l3 by (simp add: rollback_heap)
  also have "\<dots> = old_data ?c ! (a - location ?c)"
    using c old by (rule fold_restore_oldest)
  also have "\<dots> = heap s1 a" using cov by (simp add: saved_byte)
  finally show ?thesis .
qed

text \<open>
  In the scenario: after a read, the transaction writes the bytes 1 and then the bytes
  2 over the start of the first segment; a free of an unknown address aborts it, and
  the byte at address 64 is 0 again.
\<close>

theorem rollback_restores_first_preimage_witness:
  "\<exists>s1 t1 s2 t2 s3 t3 s4 t4.
      tm_begin True False = Some (scenario_tx False)
      \<and> run scenario_state (scenario_tx False) [Read 64 8 32] = Some (s1, t1)
      \<and> heap s1 64 = 0
      \<and> tm_write s1 t1 0 8 64 True True = (True, s2, Some t2)
      \<and> run s2 t2 [Write 8 8 64 True True] = Some (s3, t3)
      \<and> heap s3 64 = 2
      \<and> step s3 t3 (Free 500) = (False, s4, t4)
      \<and> heap s4 64 = 0"
proof -
  let ?R1 = "run scenario_state (scenario_tx False) [Read 64 8 32]"
  let ?s1 = "fst (the ?R1)" and ?t1 = "snd (the ?R1)"
  let ?W = "tm_write ?s1 ?t1 0 8 64 True True"
  let ?s2 = "fst (snd ?W)" and ?t2 = "the (snd (snd ?W))"
  let ?R2 = "run ?s2 ?t2 [Write 8 8 64 True True]"
  let ?s3 = "fst (the ?R2)" and ?t3 = "snd (the ?R2)"
  let ?A = "step ?s3 ?t3 (Free 500)"
  have b: "tm_begin True False = Some (scenario_tx False)"
    by (simp add: tm_begin_def scenario_tx_def)
  have r1: "?R1 = Some (?s1, ?t1)" by (simp add: eval_defs)
  have nw: "\<forall>x\<in>set [Read 64 8 32]. \<not> writes_to 64 x" by simp
  have h1: "heap ?s1 64 = 0" by (simp add: eval_defs)
  have w: "?W = (True, ?s2, Some ?t2)" by (simp add: eval_defs)
  have r2: "?R2 = Some (?s3, ?t3)" by (simp add: eval_defs)
  have h3: "heap ?s3 64 = 2" by (simp add: eval_defs)
  have fa: "fst ?A = False" by (simp add: eval_defs)
  have "heap (fst (snd ?A)) 64 = heap ?s1 64"
    using rollback_restores_first_preimage [OF b r1 nw w _ _ r2 triple_eq [OF fa]] by simp
  with h1 have h4: "heap (fst (snd ?A)) 64 = 0" by simp
  from b r1 h1 w r2 h3 triple_eq [OF fa] h4 show ?thesis by blast
qed

section \<open>Read after write\<close>

text \<open>
  A transaction whose calls no other transaction interleaves with: after a successful
  write of \<open>n\<close> bytes from \<open>source\<close> to \<open>target\<close>, a read of \<open>n\<close> bytes from \<open>target\<close>
  returns true, keeps the transaction, and leaves in its buffer the bytes that were
  written. The read finds the lock among the transaction's locks (\<open>check_lock\<close>),
  calls no try-lock, and changes no lock.
\<close>

lemma read_after_write:
  assumes w: "tm_write s t source n target new_log malloc_ok = (True, s1, Some t1)"
  shows "\<exists>s2. tm_read s1 t1 target n rtarget = (True, s2, Some t1)
            \<and> (\<forall>i<n. heap s2 (rtarget + i) = heap s (source + i))
            \<and> segs s2 = segs s1
            \<and> (\<exists>p. calls s2 = calls s1 @ [Check_lock p] \<and> check_lock t1 p)"
proof -
  from w obtain p sg where
    f: "find_seg (in_segment target) (segs s) (segments (reg s)) = Some (p, sg)"
    and nf: "\<not> freed sg" and held: "check_lock t1 p" and rg: "reg s1 = reg s"
    and sg: "segs s1 = (if check_lock t p then segs s
                    else (segs s)(p \<mapsto> sg\<lparr>lock := snd (try_lock (lock sg))\<rparr>))"
    and hp: "heap s1 = memcpy target source n (heap s)"
    by (rule tm_write_success) auto
  obtain sg1 where f1: "find_seg (in_segment target) (segs s1) (segments (reg s1)) = Some (p, sg1)"
    and nf1: "\<not> freed sg1"
  proof (cases "check_lock t p")
    case True
    with f nf sg rg that show ?thesis by simp
  next
    case False
    with find_seg_lock_upd [OF f, of "snd (try_lock (lock sg))"] nf sg rg that
    show ?thesis by simp
  qed
  let ?s2 = "(record_call (Check_lock p) s1)\<lparr>heap := memcpy rtarget target n (heap s1)\<rparr>"
  have r: "tm_read s1 t1 target n rtarget = (True, ?s2, Some t1)"
    using f1 held nf1 by (rule tm_read_held)
  have b: "\<forall>i<n. heap ?s2 (rtarget + i) = heap s (source + i)"
    by (simp add: hp memcpy_def)
  have c: "segs ?s2 = segs s1" by simp
  have d: "calls ?s2 = calls s1 @ [Check_lock p]" by simp
  from r b c d held show ?thesis by blast
qed

text \<open>In the scenario: eight bytes 1 written at address 64 and read back at address 32.\<close>

lemma read_after_write_scenario:
  "\<exists>s1 t1 s2. tm_write scenario_state (scenario_tx False) 0 8 64 True True = (True, s1, Some t1)
     \<and> tm_read s1 t1 64 8 32 = (True, s2, Some t1)
     \<and> heap s2 32 = 1 \<and> heap s2 39 = 1 \<and> segs s2 = segs s1"
proof -
  let ?W = "tm_write scenario_state (scenario_tx False) 0 8 64 True True"
  have fw: "fst ?W = True" by (simp add: eval_defs)
  have sw: "snd (snd ?W) = Some (the (snd (snd ?W)))" by (simp add: eval_defs)
  have w: "?W = (True, fst (snd ?W), Some (the (snd (snd ?W))))"
    using triple_eq [OF fw] sw by simp
  from read_after_write [OF w, of 32] obtain s2 where
    r: "tm_read (fst (snd ?W)) (the (snd (snd ?W))) 64 8 32 = (True, s2, Some (the (snd (snd ?W))))"
    and b: "\<forall>i<8. heap s2 (32 + i) = heap scenario_state (0 + i)"
    and c: "segs s2 = segs (fst (snd ?W))" by blast
  from b [rule_format, of 0] have b0: "heap s2 32 = 1" by (simp add: scenario_state_def)
  from b [rule_format, of 7] have b7: "heap s2 39 = 1" by (simp add: scenario_state_def)
  from w r b0 b7 c show ?thesis by blast
qed

text \<open>
  C2: the write does not always hold the segment's exclusive lock. \<open>tm_write\<close> skips
  \<open>try_lock\<close> whenever \<open>check_lock\<close> holds, and \<open>check_lock\<close> also holds for a lock
  the transaction took in shared mode for an earlier read. In the scenario a
  transaction reads the first segment and then writes to it: the write succeeds with the
  lock in \<open>read_locks\<close> only, \<open>locks\<close> empty and the mutex owned by one reader and no
  writer. With a second transaction that has read the same segment, both write to it
  under their shared locks: the first transaction writes the bytes 1 at address 64, the
  second writes the bytes 2 there, and the first transaction's read of address 64 then
  returns true with the bytes 2 in its buffer at address 32.
\<close>

theorem write_runs_under_shared_lock:
  "map_option (locks \<circ> snd)
     (run scenario_state (scenario_tx False) [Read 64 8 32, Write 0 8 64 True True]) = Some []
   \<and> map_option (read_locks \<circ> snd)
     (run scenario_state (scenario_tx False) [Read 64 8 32, Write 0 8 64 True True]) = Some [0]
   \<and> Option.bind
       (map_option fst
         (run scenario_state (scenario_tx False) [Read 64 8 32, Write 0 8 64 True True]))
       (lock_of 0) = Some \<lparr>writer = False, readers = 1\<rparr>
   \<and> byte_at 0 scenario_state = 1
   \<and> map_option (byte_at 32 \<circ> fst)
       (run2 scenario_state (scenario_tx False) (scenario_tx False)
          [(True, Read 64 8 32), (False, Read 64 8 40), (True, Write 0 8 64 True True),
           (False, Write 8 8 64 True True), (True, Read 64 8 32)]) = Some 2"
  by (simp add: eval_defs observe_defs)

section \<open>Freeing a segment\<close>

text \<open>
  C3: \<open>tm_free\<close> sets the segment's \<open>freed\<close> flag and records the lock in
  \<open>to_free_locks\<close>, but never puts the segment into \<open>to_free\<close>, the only list
  \<open>tm_end\<close> passes to \<open>free_segments\<close>. In the scenario a transaction frees the second
  segment and commits: \<open>to_free\<close> is empty, the region still holds both segments, and
  address 128 is still located in the second one.
\<close>

theorem freed_segment_survives_commit:
  "map_option (to_free \<circ> snd) (run scenario_state (scenario_tx False) [Free 128]) = Some []
   \<and> map_option (segments \<circ> reg)
       (commit (run scenario_state (scenario_tx False) [Free 128])) = Some [0, 1]
   \<and> Option.bind (commit (run scenario_state (scenario_tx False) [Free 128])) (locate 128)
       = Some 1"
  by (simp add: eval_defs commit_def locate_def)

section \<open>Aborts\<close>




section \<open>The transaction's lock lists\<close>

text \<open>
  C5: \<open>tm_free\<close> appends the lock to \<open>to_free_locks\<close> whether it was just acquired
  or already held. In the scenario a transaction writes to the second segment, which
  records its lock in \<open>locks\<close>, and then frees that segment: the same lock is now also in
  \<open>to_free_locks\<close>, so it appears twice across the transaction's lock lists.
\<close>

theorem free_records_held_lock_again:
  "map_option (locks \<circ> snd)
     (run scenario_state (scenario_tx False) [Write 0 8 128 True True, Free 128]) = Some [1]
   \<and> map_option (to_free_locks \<circ> snd)
     (run scenario_state (scenario_tx False) [Write 0 8 128 True True, Free 128]) = Some [1]"
  by (simp add: eval_defs)

text \<open>
  C6, as the code has it: \<open>check_lock\<close> holds exactly for the locks in one of the four
  lock lists. In \<open>tm_read\<close> and \<open>tm_write\<close> the first call on the located segment is
  \<open>check_lock\<close>, and when it holds no try-lock follows. In \<open>tm_free\<close> the first call on
  the located segment is \<open>try_lock\<close>, and \<open>check_lock\<close> is called exactly when that
  try-lock fails.
\<close>

theorem check_lock_order:
  "(check_lock t l \<longleftrightarrow>
      l \<in> set (locks t) \<union> set (read_locks t) \<union> set (new_seg_locks t) \<union> set (to_free_locks t))
   \<and> (find_seg (in_segment a) (segs s) (segments (reg s)) = Some (p, sg) \<longrightarrow>
        (\<exists>rest. calls (fst (snd (tm_read s t a n target))) = calls s @ Check_lock p # rest
            \<and> (check_lock t p \<longrightarrow> \<not> list_ex is_try rest))
      \<and> (\<exists>rest. calls (fst (snd (tm_write s t source n a new_log malloc_ok)))
              = calls s @ Check_lock p # rest
            \<and> (check_lock t p \<longrightarrow> \<not> list_ex is_try rest)))
   \<and> (find_seg (at_base a) (segs s) (segments (reg s)) = Some (q, sq) \<longrightarrow>
        (\<exists>rest. calls (fst (snd (tm_free s t a))) = calls s @ Try_lock q # rest
            \<and> (Check_lock q \<in> set rest \<longleftrightarrow> \<not> fst (try_lock (lock sq)))))"
  using tm_read_calls [of a s p sg t n target]
    tm_write_calls [of a s p sg t source n new_log malloc_ok]
    tm_free_calls [of a s q sq t]
  by (simp add: check_lock_def)

text \<open>
  In the scenario, for a transaction that has written to the second segment and so
  holds its lock: a read and a write of that segment call \<open>check_lock\<close> and no try-lock;
  a free of it calls \<open>try_lock\<close> first and \<open>check_lock\<close> afterwards.
\<close>

theorem check_lock_order_witness:
  "\<exists>s1 t1 r1 r2 r3.
      run scenario_state (scenario_tx False) [Write 0 8 128 True True] = Some (s1, t1)
      \<and> check_lock t1 1
      \<and> calls (fst (snd (tm_read s1 t1 128 8 32))) = calls s1 @ Check_lock 1 # r1
      \<and> \<not> list_ex is_try r1
      \<and> calls (fst (snd (tm_write s1 t1 8 8 128 True True))) = calls s1 @ Check_lock 1 # r2
      \<and> \<not> list_ex is_try r2
      \<and> calls (fst (snd (tm_free s1 t1 128))) = calls s1 @ Try_lock 1 # r3
      \<and> Check_lock 1 \<in> set r3"
proof -
  let ?R = "run scenario_state (scenario_tx False) [Write 0 8 128 True True]"
  let ?s1 = "fst (the ?R)" and ?t1 = "snd (the ?R)"
  let ?sg = "\<lparr>lock = \<lparr>writer = True, readers = 0\<rparr>, seg_mem = 128, seg_size = 16,
              freed = False\<rparr>"
  have r: "?R = Some (?s1, ?t1)" by (simp add: eval_defs)
  have f1: "find_seg (in_segment 128) (segs ?s1) (segments (reg ?s1)) = Some (1, ?sg)"
    by (simp add: eval_defs)
  have f2: "find_seg (at_base 128) (segs ?s1) (segments (reg ?s1)) = Some (1, ?sg)"
    by (simp add: eval_defs)
  have held: "check_lock ?t1 1" by (simp add: eval_defs)
  have busy: "\<not> fst (try_lock (lock ?sg))" by (simp add: try_lock_def)
  note th = check_lock_order [where t = ?t1 and s = ?s1 and a = 128 and p = 1 and sg = ?sg
      and q = 1 and sq = ?sg and n = 8 and target = 32 and source = 8 and new_log = True
      and malloc_ok = True and l = 1]
  from th f1 held obtain r1 where
    a: "calls (fst (snd (tm_read ?s1 ?t1 128 8 32))) = calls ?s1 @ Check_lock 1 # r1"
    and a': "\<not> list_ex is_try r1" by blast
  from th f1 held obtain r2 where
    b: "calls (fst (snd (tm_write ?s1 ?t1 8 8 128 True True))) = calls ?s1 @ Check_lock 1 # r2"
    and b': "\<not> list_ex is_try r2" by blast
  from th f2 busy obtain r3 where
    c: "calls (fst (snd (tm_free ?s1 ?t1 128))) = calls ?s1 @ Try_lock 1 # r3"
    and c': "Check_lock 1 \<in> set r3" by blast
  from r held a a' b b' c c' show ?thesis by blast
qed

text \<open>
  The calls of a transaction that writes to the second segment and then frees it: the
  write checks and then acquires the lock; the free, although the transaction now owns
  the lock, attempts \<open>try_lock\<close> before it consults \<open>check_lock\<close>.
\<close>

theorem free_attempts_lock_before_check:
  "map_option (calls \<circ> fst)
     (run scenario_state (scenario_tx False) [Write 0 8 128 True True, Free 128])
   = Some [Check_lock 1, Try_lock 1, Try_lock 1, Check_lock 1]"
  by (simp add: eval_defs)

section \<open>Reading a tombstoned segment\<close>

text \<open>
  C7: when the segment selected for the source address is tombstoned, \<open>tm_read\<close>
  returns false and destroys the transaction, whoever set the flag and whether the lock
  was held or had to be acquired. It copies nothing: the memory is the one \<open>rollback\<close>
  alone produces, and is unchanged when the transaction has no undo record to replay.
\<close>

theorem tm_read_tombstoned_aborts:
  assumes "find_seg (in_segment source) (segs s) (segments (reg s)) = Some (p, sg)"
    and "freed sg"
  shows "\<exists>s'. tm_read s t source n target = (False, s', None)
            \<and> heap s' = heap (rollback s t)
            \<and> (is_ro t \<or> logs t = [] \<longrightarrow> heap s' = heap s)"
  using assms
  by (auto simp: tm_read_def Let_def rollback_heap split: sum.splits
      intro!: fold_restore_heap_cong)

text \<open>In the scenario with the second segment tombstoned: a read at address 128.\<close>

theorem tm_read_tombstoned_aborts_witness:
  "freed (the (segs tombstoned_state 1))
   \<and> locate 128 tombstoned_state = Some 1
   \<and> (\<exists>s'. tm_read tombstoned_state (scenario_tx True) 128 8 32 = (False, s', None)
          \<and> heap s' = heap tombstoned_state)"
proof -
  let ?sg = "\<lparr>lock = \<lparr>writer = False, readers = 0\<rparr>, seg_mem = 128, seg_size = 16,
              freed = True\<rparr>"
  have f: "find_seg (in_segment 128) (segs tombstoned_state) (segments (reg tombstoned_state))
             = Some (1, ?sg)"
    by (simp add: tombstoned_state_def scenario_state_def set_freed_def in_segment_def)
  have fr: "freed ?sg" by simp
  have ro: "is_ro (scenario_tx True)" by (simp add: scenario_tx_def)
  from tm_read_tombstoned_aborts [OF f fr, of "scenario_tx True" 8 32] ro
  have "\<exists>s'. tm_read tombstoned_state (scenario_tx True) 128 8 32 = (False, s', None)
          \<and> heap s' = heap tombstoned_state" by auto
  moreover have "freed (the (segs tombstoned_state 1))"
    by (simp add: tombstoned_state_def scenario_state_def set_freed_def)
  moreover have "locate 128 tombstoned_state = Some 1" using f by (simp add: locate_def)
  ultimately show ?thesis by blast
qed

section \<open>Allocation\<close>

text \<open>
  C8: when the segment object or its buffer cannot be allocated, \<open>tm_alloc\<close> returns
  nomem, stores no address, and leaves the state (memory, segments, region, calls: no
  rollback) and the transaction (logs and lock lists) as they were; the transaction is
  still there for further calls. A pointer returned by \<open>new\<close> is fresh.
\<close>

theorem tm_alloc_nomem_keeps_transaction:
  assumes "new_seg = None \<or> memalign = None"
    and "\<And>p. new_seg = Some p \<Longrightarrow> segs s p = None"
  shows "tm_alloc s t n new_seg memalign = (Alloc_nomem, s, Some t, None)"
  using assms by (auto simp: tm_alloc_def Let_def fun_upd_idem split: option.splits)

text \<open>In the scenario: the segment object is allocated, its buffer is not.\<close>

theorem tm_alloc_nomem_keeps_transaction_witness:
  "tm_alloc scenario_state (scenario_tx False) 16 (Some 2) None
     = (Alloc_nomem, scenario_state, Some (scenario_tx False), None)"
  using tm_alloc_nomem_keeps_transaction [of "Some 2" None scenario_state "scenario_tx False" 16]
  by (simp add: scenario_state_def)

section \<open>Frame of write and read\<close>

text \<open>
  C9: a successful \<open>tm_write\<close> changes no byte outside the \<open>n\<close> bytes at its target,
  which receive the source bytes. A successful \<open>tm_read\<close> changes no byte outside its
  target buffer, hence no byte of any segment of the region when that buffer is private.
\<close>

theorem write_read_frame:
  assumes w: "tm_write s t wsource n wtarget new_log malloc_ok = (True, sw, tw)"
    and r: "tm_read s2 t2 rsource m rtarget = (True, sr, tr)"
  shows "(\<forall>a. \<not> (wtarget \<le> a \<and> a < wtarget + n) \<longrightarrow> heap sw a = heap s a)
       \<and> (\<forall>i<n. heap sw (wtarget + i) = heap s (wsource + i))
       \<and> (\<forall>a. \<not> (rtarget \<le> a \<and> a < rtarget + m) \<longrightarrow> heap sr a = heap s2 a)
       \<and> (private_buffer s2 rtarget m \<longrightarrow>
            (\<forall>p sg a. p \<in> set (segments (reg s2)) \<and> segs s2 p = Some sg \<and> in_segment a sg
               \<longrightarrow> heap sr a = heap s2 a))"
proof -
  have hw: "heap sw = memcpy wtarget wsource n (heap s)" using w by (rule tm_write_success)
  have hr: "heap sr = memcpy rtarget rsource m (heap s2)" using r by (rule tm_read_heap)
  have 1: "\<forall>a. \<not> (wtarget \<le> a \<and> a < wtarget + n) \<longrightarrow> heap sw a = heap s a"
    by (simp add: hw memcpy_def)
  have 2: "\<forall>i<n. heap sw (wtarget + i) = heap s (wsource + i)"
    by (simp add: hw memcpy_def)
  have 3: "\<forall>a. \<not> (rtarget \<le> a \<and> a < rtarget + m) \<longrightarrow> heap sr a = heap s2 a"
    by (simp add: hr memcpy_def)
  have 4: "private_buffer s2 rtarget m \<longrightarrow>
            (\<forall>p sg a. p \<in> set (segments (reg s2)) \<and> segs s2 p = Some sg \<and> in_segment a sg
               \<longrightarrow> heap sr a = heap s2 a)"
  proof (intro impI allI)
    fix p sg a
    assume pb: "private_buffer s2 rtarget m"
      and h: "p \<in> set (segments (reg s2)) \<and> segs s2 p = Some sg \<and> in_segment a sg"
    from pb h have "rtarget + m \<le> seg_mem sg \<or> seg_mem sg + seg_size sg \<le> rtarget"
      by (auto simp: private_buffer_def list_all_iff)
    with h have "\<not> (rtarget \<le> a \<and> a < rtarget + m)"
      by (auto simp: in_segment_def)
    with 3 show "heap sr a = heap s2 a" by simp
  qed
  from 1 2 3 4 show ?thesis by blast
qed

text \<open>
  In the scenario: a write of eight bytes at address 64 leaves address 72 alone and
  puts the last source byte at address 71; a read into the private buffer at address 32
  leaves the byte at address 130 of the second segment alone.
\<close>

theorem write_read_frame_witness:
  "fst (tm_write scenario_state (scenario_tx False) 0 8 64 True True)
   \<and> heap (fst (snd (tm_write scenario_state (scenario_tx False) 0 8 64 True True))) 72
       = heap scenario_state 72
   \<and> heap (fst (snd (tm_write scenario_state (scenario_tx False) 0 8 64 True True))) 71
       = heap scenario_state 7
   \<and> fst (tm_read scenario_state (scenario_tx True) 64 8 32)
   \<and> private_buffer scenario_state 32 8
   \<and> heap (fst (snd (tm_read scenario_state (scenario_tx True) 64 8 32))) 130
       = heap scenario_state 130"
proof -
  let ?W = "tm_write scenario_state (scenario_tx False) 0 8 64 True True"
  let ?R = "tm_read scenario_state (scenario_tx True) 64 8 32"
  have fw: "fst ?W = True" by (simp add: eval_defs)
  have fr: "fst ?R = True" by (simp add: eval_defs)
  have pb: "private_buffer scenario_state 32 8"
    by (simp add: private_buffer_def scenario_state_def)
  have live: "1 \<in> set (segments (reg scenario_state))
      \<and> segs scenario_state 1 = Some \<lparr>lock = \<lparr>writer = False, readers = 0\<rparr>, seg_mem = 128,
            seg_size = 16, freed = False\<rparr>
      \<and> in_segment 130 \<lparr>lock = \<lparr>writer = False, readers = 0\<rparr>, seg_mem = 128,
            seg_size = 16, freed = False\<rparr>"
    by (simp add: scenario_state_def in_segment_def)
  note th = write_read_frame [OF triple_eq [OF fw] triple_eq [OF fr]]
  from th have "heap (fst (snd ?W)) 72 = heap scenario_state 72" by simp
  moreover from th [THEN conjunct2, THEN conjunct1, rule_format, of 7]
  have "heap (fst (snd ?W)) 71 = heap scenario_state 7" by simp
  moreover from th pb live have "heap (fst (snd ?R)) 130 = heap scenario_state 130" by blast
  ultimately show ?thesis using fw fr pb by simp
qed

text \<open>
  C10: \<open>tm_alloc\<close> returns success or nomem, never abort; it calls no rollback and
  the transaction stays alive.
\<close>

theorem tm_alloc_never_aborts:
  "fst (tm_alloc s t n new_seg memalign) \<noteq> Alloc_abort
   \<and> fst (snd (snd (tm_alloc s t n new_seg memalign))) \<noteq> None
   \<and> calls (fst (snd (tm_alloc s t n new_seg memalign))) = calls s"
  by (simp add: tm_alloc_def Let_def split: option.splits)

end
